theory Spec2Isabelle
  imports Main "HOL-Library.Sublist"
begin

section \<open>Strings as the program sees them\<close>

text \<open>
  Header values reach a WSGI application as strings of code points 0..255, one
  \<^typ>\<open>char\<close> each. On that range Python's \<open>str.lower\<close> moves \<open>A..Z\<close> and the
  letters \<open>0xC0..0xDE\<close> (without the multiplication sign \<open>0xD7\<close>) up by 32 and
  leaves every other character alone.
\<close>

definition lower_char :: "char \<Rightarrow> char" where
  "lower_char c =
     (let n = (of_char c :: nat)
      in if (65 \<le> n \<and> n \<le> 90) \<or> (192 \<le> n \<and> n \<le> 222 \<and> n \<noteq> 215)
         then char_of (n + 32) else c)"

definition lower :: "string \<Rightarrow> string" where
  "lower s = map lower_char s"

text \<open>\<open>needle in hay\<close> on Python strings: \<open>needle\<close> occurs as a contiguous block.\<close>

fun str_in :: "string \<Rightarrow> string \<Rightarrow> bool" where
  "str_in needle [] = (needle = [])"
| "str_in needle (c # cs) = (prefix needle (c # cs) \<or> str_in needle cs)"

text \<open>\<open>s.split(sep)\<close> for a one-character separator: never an empty list.\<close>

fun split :: "char \<Rightarrow> string \<Rightarrow> string list" where
  "split sep [] = [[]]"
| "split sep (c # cs) =
     (if c = sep then [] # split sep cs
      else (case split sep cs of
              [] \<Rightarrow> [[c]]
            | w # ws \<Rightarrow> (c # w) # ws))"

text \<open>Truthiness of the result of \<open>dict.get(key)\<close>: present and not empty.\<close>

definition truthy :: "string option \<Rightarrow> bool" where
  "truthy v = (case v of None \<Rightarrow> False | Some x \<Rightarrow> x \<noteq> [])"

section \<open>The inbound request\<close>

record request =
  path :: string
  req_method :: string
  req_host :: string
  req_referrer :: "string option"
  environ :: "string \<rightharpoonup> string"
  headers :: "string \<rightharpoonup> string"
  form :: "string \<rightharpoonup> string"

subsection \<open>\<open>get_client_ip\<close>\<close>

definition get_client_ip :: "request \<Rightarrow> string" where
  "get_client_ip r =
     (if truthy (environ r ''HTTP_X_FORWARDED_FOR'')
      then hd (split CHR '','' (the (environ r ''HTTP_X_FORWARDED_FOR'')))
      else if truthy (environ r ''HTTP_X_REAL_IP'')
      then the (environ r ''HTTP_X_REAL_IP'')
      else (case environ r ''REMOTE_ADDR'' of
              None \<Rightarrow> ''Unknown''
            | Some a \<Rightarrow> a))"

text \<open>
  The priority rule as the specification words it, where a header counts as soon
  as it is present.
\<close>

definition client_ip_spec :: "request \<Rightarrow> string" where
  "client_ip_spec r =
     (case environ r ''HTTP_X_FORWARDED_FOR'' of
        Some v \<Rightarrow> takeWhile (\<lambda>c. c \<noteq> CHR '','') v
      | None \<Rightarrow>
          (case environ r ''HTTP_X_REAL_IP'' of
             Some w \<Rightarrow> w
           | None \<Rightarrow>
               (case environ r ''REMOTE_ADDR'' of
                  Some a \<Rightarrow> a
                | None \<Rightarrow> ''Unknown'')))"

subsection \<open>\<open>parse_user_agent\<close>\<close>

definition parse_user_agent :: "string option \<Rightarrow> string \<times> string" where
  "parse_user_agent user_agent_string =
     (let ua = (if truthy user_agent_string then lower (the user_agent_string) else '''');
          b = (if str_in ''chrome'' ua then ''Chrome''
               else if str_in ''firefox'' ua then ''Firefox''
               else if str_in ''safari'' ua then ''Safari''
               else if str_in ''edge'' ua then ''Edge''
               else ''Unknown'');
          p = (if str_in ''windows'' ua then ''Windows''
               else if str_in ''mac'' ua then ''macOS''
               else if str_in ''linux'' ua then ''Linux''
               else if str_in ''android'' ua then ''Android''
               else if str_in ''iphone'' ua \<or> str_in ''ipad'' ua then ''iOS''
               else ''Unknown'')
      in (b, p))"

section \<open>Storage\<close>

text \<open>
  The two tables, in insertion order. Rows are only ever appended, so the
  auto-increment key of a new row is the number of rows plus one. Times are
  seconds since the epoch.
\<close>

record visitor =
  visitor_id :: nat
  session_id :: string
  ip_address :: string
  user_agent :: string
  timestamp :: nat
  page :: string
  action :: string
  referrer :: "string option"
  host :: string
  http_method :: string
  platform :: string
  browser :: string
  country :: "string option"
  city :: "string option"

record contact_message =
  msg_id :: nat
  msg_name :: string
  msg_email :: string
  msg_message :: string
  msg_ip_address :: string
  msg_timestamp :: nat
  msg_read :: bool

text \<open>
  An object handed to \<open>db.session.add\<close> and not yet committed. A
  \<open>ContactMessage\<close> is built from \<open>request.form.get\<close>, which yields \<open>None\<close>
  for a missing field; the key and the time of a \<open>Visitor\<close> are filled in at the
  flush.
\<close>

datatype row =
    Visitor_row visitor
  | Message_row "string option" "string option" "string option" string

text \<open>
  What the program cannot decide itself: the identifiers \<open>uuid.uuid4\<close> hands
  out, the clock, and whether the storage engine raises. The \<open>n\<close>-th identifier
  drawn is \<open>uuid4 e n\<close> (\<open>drawn\<close> below counts them); the storage engine and
  the clock are functions of the number of the storage operation (\<open>tick\<close> below)
  at which they are consulted.
\<close>

record env =
  uuid4 :: "nat \<Rightarrow> string"
  utcnow :: "nat \<Rightarrow> nat"
  storage_raises :: "nat \<Rightarrow> string option"
  isoformat :: "nat \<Rightarrow> string"
  now_strftime :: "nat \<Rightarrow> string"

datatype level = INFO | ERROR

record world =
  visitors :: "visitor list"
  messages :: "contact_message list"
  pending :: "row list"
  session :: "string \<rightharpoonup> string"
  logger :: "(level \<times> string) list"
  tick :: nat
  drawn :: nat

definition app_log :: "level \<Rightarrow> string \<Rightarrow> world \<Rightarrow> world" where
  "app_log l m s = s\<lparr>logger := logger s @ [(l, m)]\<rparr>"

text \<open>The \<open>nullable=False\<close> columns of a pending row.\<close>

fun not_null_ok :: "row \<Rightarrow> bool" where
  "not_null_ok (Visitor_row v) = True"
| "not_null_ok (Message_row n e m ip) = (n \<noteq> None \<and> e \<noteq> None \<and> m \<noteq> None)"

fun flush_row :: "env \<Rightarrow> nat \<Rightarrow> row \<Rightarrow> world \<Rightarrow> world" where
  "flush_row e t (Visitor_row v) s =
     s\<lparr>visitors := visitors s @
          [v\<lparr>visitor_id := Suc (length (visitors s)), timestamp := utcnow e t\<rparr>]\<rparr>"
| "flush_row e t (Message_row n em m ip) s =
     s\<lparr>messages := messages s @
          [\<lparr>msg_id = Suc (length (messages s)), msg_name = the n, msg_email = the em,
            msg_message = the m, msg_ip_address = ip, msg_timestamp = utcnow e t,
            msg_read = False\<rparr>]\<rparr>"

text \<open>
  \<open>db.session.commit()\<close>: the first component is the exception raised, if any.
  A commit that raises writes nothing and leaves the pending objects where they are.
\<close>

definition commit :: "env \<Rightarrow> world \<Rightarrow> string option \<times> world" where
  "commit e s =
     (let t = tick s; s' = s\<lparr>tick := Suc t\<rparr>
      in if \<not> list_all not_null_ok (pending s) then (Some ''IntegrityError'', s')
         else (case storage_raises e t of
                 Some x \<Rightarrow> (Some x, s')
               | None \<Rightarrow> (None, (fold (flush_row e t) (pending s) s')\<lparr>pending := []\<rparr>)))"

definition rollback :: "world \<Rightarrow> world" where
  "rollback s = s\<lparr>pending := []\<rparr>"

text \<open>
  \<open>n\<close> read queries in a row: reading changes no table, but any of them may raise.
\<close>

fun run_queries :: "env \<Rightarrow> nat \<Rightarrow> world \<Rightarrow> string option \<times> world" where
  "run_queries e 0 s = (None, s)"
| "run_queries e (Suc n) s =
     (case storage_raises e (tick s) of
        Some x \<Rightarrow> (Some x, s\<lparr>tick := Suc (tick s)\<rparr>)
      | None \<Rightarrow> run_queries e n (s\<lparr>tick := Suc (tick s)\<rparr>))"

section \<open>The visit logger and the middleware\<close>

definition log_visitor :: "env \<Rightarrow> request \<Rightarrow> string \<Rightarrow> string \<Rightarrow> world \<Rightarrow> world" where
  "log_visitor e r pg act s =
     (let ip = get_client_ip r;
          ua = (case headers r ''User-Agent'' of None \<Rightarrow> [] | Some u \<Rightarrow> u);
          bp = parse_user_agent (Some ua);
          fresh = uuid4 e (drawn s);
          s1 = s\<lparr>drawn := Suc (drawn s)\<rparr>;
          v = \<lparr>visitor_id = 0,
               session_id = (case session s1 ''session_id'' of None \<Rightarrow> fresh | Some x \<Rightarrow> x),
               ip_address = ip, user_agent = ua, timestamp = 0, page = pg, action = act,
               referrer = req_referrer r, host = req_host r, http_method = req_method r,
               platform = snd bp, browser = fst bp, country = None, city = None\<rparr>;
          s2 = s1\<lparr>pending := pending s1 @ [Visitor_row v]\<rparr>;
          cs = commit e s2
      in case fst cs of
           None \<Rightarrow>
             app_log INFO (''VISITOR LOGGED: '' @ ip @ '' - '' @ act @ '' - '' @ pg) (snd cs)
         | Some x \<Rightarrow>
             rollback (app_log ERROR (''Error logging visitor: '' @ x) (snd cs)))"

definition before_request :: "env \<Rightarrow> request \<Rightarrow> world \<Rightarrow> world" where
  "before_request e r s =
     (let s1 = (if session s ''session_id'' = None
                then s\<lparr>session := (session s)(''session_id'' \<mapsto> uuid4 e (drawn s)),
                       drawn := Suc (drawn s)\<rparr>
                else s)
      in if \<not> prefix ''/static'' (path r) \<and> path r \<noteq> ''/admin/logs''
         then log_visitor e r (path r) ''VISIT'' s1
         else s1)"

section \<open>Responses\<close>

datatype json =
    JNull
  | JBool bool
  | JNum nat
  | JStr string
  | JList "json list"
  | JObj "(string \<times> json) list"

text \<open>
  \<open>Framework\<close> stands for every answer Flask gives without calling a view of this
  program: a static file, 404, 405, the automatic OPTIONS reply.
\<close>

datatype response =
    Rendered string
  | Json json
  | Csv string "(string \<times> string) list"
  | Framework

definition jget :: "string \<Rightarrow> response \<Rightarrow> json option" where
  "jget k resp = (case resp of Json (JObj kvs) \<Rightarrow> map_of kvs k | _ \<Rightarrow> None)"

definition opt_json :: "string option \<Rightarrow> json" where
  "opt_json v = (case v of None \<Rightarrow> JNull | Some x \<Rightarrow> JStr x)"

section \<open>Page views and the contact form\<close>

definition index_view :: "env \<Rightarrow> request \<Rightarrow> world \<Rightarrow> response \<times> world" where
  "index_view e r s = (Rendered ''index.html'', s)"

definition portfolio :: "env \<Rightarrow> request \<Rightarrow> world \<Rightarrow> response \<times> world" where
  "portfolio e r s = (Rendered ''portfolio.html'', log_visitor e r ''/portfolio'' ''PORTFOLIO_VIEW'' s)"

definition about :: "env \<Rightarrow> request \<Rightarrow> world \<Rightarrow> response \<times> world" where
  "about e r s = (Rendered ''about.html'', log_visitor e r ''/about'' ''ABOUT_VIEW'' s)"

definition contact :: "env \<Rightarrow> request \<Rightarrow> world \<Rightarrow> response \<times> world" where
  "contact e r s = (Rendered ''contact.html'', log_visitor e r ''/contact'' ''CONTACT_VIEW'' s)"

definition admin :: "env \<Rightarrow> request \<Rightarrow> world \<Rightarrow> response \<times> world" where
  "admin e r s = (Rendered ''admin.html'', s)"

text \<open>How an f-string prints a value that may be \<open>None\<close>.\<close>

definition fmt :: "string option \<Rightarrow> string" where
  "fmt v = (case v of None \<Rightarrow> ''None'' | Some x \<Rightarrow> x)"

definition success_payload :: json where
  "success_payload =
     JObj [(''status'', JStr ''success''),
           (''message'', JStr (''Message envoy'' @ [CHR 0xE9] @ '' avec succ'' @ [CHR 0xE8] @ ''s!''))]"

definition error_payload :: json where
  "error_payload =
     JObj [(''status'', JStr ''error''),
           (''message'', JStr (''Erreur lors de l'' @ [CHR 0x27] @ ''envoi''))]"

definition contact_submit :: "env \<Rightarrow> request \<Rightarrow> world \<Rightarrow> response \<times> world" where
  "contact_submit e r s =
     (let nm = form r ''name'';
          em = form r ''email'';
          ms = form r ''message'';
          s1 = s\<lparr>pending := pending s @ [Message_row nm em ms (get_client_ip r)]\<rparr>;
          cs = commit e s1
      in case fst cs of
           None \<Rightarrow>
             (Json success_payload,
              log_visitor e r ''/contact'' (''CONTACT_SUBMIT:'' @ fmt nm) (snd cs))
         | Some x \<Rightarrow>
             (Json error_payload,
              app_log ERROR (''Error saving contact message: '' @ x) (snd cs)))"

section \<open>The admin queries\<close>

text \<open>
  \<open>ORDER BY key DESC\<close>: largest key first. SQL leaves the order of rows with equal
  keys open; the engine of the default configuration hands them out in the order of
  the table, the earlier inserted row first, and so does this stable sort.
\<close>

definition order_by_desc :: "('a \<Rightarrow> nat) \<Rightarrow> 'a list \<Rightarrow> 'a list" where
  "order_by_desc k xs = sort_key (\<lambda>x. - int (k x)) xs"

text \<open>\<open>GROUP BY x\<close> with \<open>COUNT\<close>: every distinct value with its number of rows.\<close>

definition group_count :: "'a list \<Rightarrow> ('a \<times> nat) list" where
  "group_count xs = map (\<lambda>k. (k, count_list xs k)) (remdups xs)"

definition query_failed :: "string \<Rightarrow> json" where
  "query_failed what = JObj [(''error'', JStr (''Erreur lors de '' @ what))]"

definition log_dict :: "env \<Rightarrow> visitor \<Rightarrow> (string \<times> json) list" where
  "log_dict e v =
     [(''id'', JNum (visitor_id v)),
      (''session_id'', JStr (session_id v)),
      (''ip'', JStr (ip_address v)),
      (''user_agent'', JStr (user_agent v)),
      (''timestamp'', JStr (isoformat e (timestamp v))),
      (''page'', JStr (page v)),
      (''action'', JStr (action v)),
      (''referrer'', opt_json (referrer v)),
      (''host'', JStr (host v)),
      (''method'', JStr (http_method v)),
      (''platform'', JStr (platform v)),
      (''browser'', JStr (browser v))]"

definition admin_logs :: "env \<Rightarrow> request \<Rightarrow> world \<Rightarrow> response \<times> world" where
  "admin_logs e r s =
     (let qs = run_queries e 3 s
      in case fst qs of
           Some x \<Rightarrow>
             (Json (query_failed (''la r'' @ [CHR 0xE9] @ ''cup'' @ [CHR 0xE9] @ ''ration des logs'')),
              app_log ERROR (''Error fetching logs: '' @ x) (snd qs))
         | None \<Rightarrow>
             (Json (JObj
                [(''logs'', JList (map (\<lambda>v. JObj (log_dict e v))
                                    (take 100 (order_by_desc timestamp (visitors s))))),
                 (''total'', JNum (length (visitors s))),
                 (''unique_visitors'', JNum (length (remdups (map ip_address (visitors s)))))]),
              snd qs))"

definition digit :: "nat \<Rightarrow> char" where
  "digit n = char_of (48 + n)"

text \<open>\<open>strftime('%H', timestamp)\<close>: the hour of the day, two digits.\<close>

definition hour_of :: "nat \<Rightarrow> nat" where
  "hour_of t = (t div 3600) mod 24"

definition two_digits :: "nat \<Rightarrow> string" where
  "two_digits n = [digit (n div 10), digit (n mod 10)]"

definition admin_stats :: "env \<Rightarrow> request \<Rightarrow> world \<Rightarrow> response \<times> world" where
  "admin_stats e r s =
     (let qs = run_queries e 6 s;
          now = utcnow e (tick s + 5);
          top_pages = take 10 (order_by_desc snd (group_count (map page (visitors s))));
          top_browsers = take 5 (order_by_desc snd (group_count (map browser (visitors s))));
          hourly_visits =
            sort_key fst (group_count (map (\<lambda>v. hour_of (timestamp v))
                            (filter (\<lambda>v. now - 86400 \<le> timestamp v) (visitors s))))
      in case fst qs of
           Some x \<Rightarrow>
             (Json (query_failed (''la r'' @ [CHR 0xE9] @ ''cup'' @ [CHR 0xE9] @ ''ration des statistiques'')),
              app_log ERROR (''Error fetching stats: '' @ x) (snd qs))
         | None \<Rightarrow>
             (Json (JObj
                [(''total_visits'', JNum (length (visitors s))),
                 (''unique_visitors'', JNum (length (remdups (map ip_address (visitors s))))),
                 (''total_messages'', JNum (length (messages s))),
                 (''top_pages'',
                    JList (map (\<lambda>p. JObj [(''page'', JStr (fst p)), (''count'', JNum (snd p))]) top_pages)),
                 (''top_browsers'',
                    JList (map (\<lambda>b. JObj [(''browser'', JStr (fst b)), (''count'', JNum (snd b))]) top_browsers)),
                 (''hourly_visits'',
                    JList (map (\<lambda>h. JObj [(''hour'', JStr (two_digits (fst h))), (''count'', JNum (snd h))])
                             hourly_visits))]),
              snd qs))"

definition message_dict :: "env \<Rightarrow> contact_message \<Rightarrow> (string \<times> json) list" where
  "message_dict e m =
     [(''id'', JNum (msg_id m)),
      (''name'', JStr (msg_name m)),
      (''email'', JStr (msg_email m)),
      (''message'', JStr (msg_message m)),
      (''ip_address'', JStr (msg_ip_address m)),
      (''timestamp'', JStr (isoformat e (msg_timestamp m))),
      (''read'', JBool (msg_read m))]"

definition admin_messages :: "env \<Rightarrow> request \<Rightarrow> world \<Rightarrow> response \<times> world" where
  "admin_messages e r s =
     (let qs = run_queries e 1 s
      in case fst qs of
           Some x \<Rightarrow>
             (Json (query_failed (''la r'' @ [CHR 0xE9] @ ''cup'' @ [CHR 0xE9] @ ''ration des messages'')),
              app_log ERROR (''Error fetching messages: '' @ x) (snd qs))
         | None \<Rightarrow>
             (Json (JObj
                [(''messages'', JList (map (\<lambda>m. JObj (message_dict e m))
                                        (order_by_desc msg_timestamp (messages s))))]),
              snd qs))"

section \<open>The CSV export\<close>

text \<open>\<open>str(n)\<close> for a non-negative integer.\<close>

fun str_nat :: "nat \<Rightarrow> string" where
  "str_nat n = (if n < 10 then [digit n] else str_nat (n div 10) @ [digit (n mod 10)])"

text \<open>How the \<open>csv\<close> module prints a value: \<open>None\<close> as nothing, the rest by \<open>str\<close>.\<close>

fun csv_str :: "json \<Rightarrow> string" where
  "csv_str JNull = []"
| "csv_str (JNum n) = str_nat n"
| "csv_str (JStr x) = x"
| "csv_str (JBool b) = (if b then ''True'' else ''False'')"
| "csv_str (JList xs) = []"
| "csv_str (JObj kvs) = []"

definition join :: "string \<Rightarrow> string list \<Rightarrow> string" where
  "join sep xs = (case xs of [] \<Rightarrow> [] | y # ys \<Rightarrow> y @ concat (map (\<lambda>z. sep @ z) ys))"

text \<open>
  The default dialect: a field is quoted when it holds the delimiter, the quote
  character or a character of the line terminator, and quote characters are doubled
  inside; a record made of one empty field is written as two quote characters; the
  line ends with CR LF.
\<close>

definition csv_field :: "string \<Rightarrow> string" where
  "csv_field f =
     (if list_ex (\<lambda>c. c = CHR '','' \<or> c = CHR 0x22 \<or> c = CHR 0x0D \<or> c = CHR 0x0A) f
      then [CHR 0x22] @ concat (map (\<lambda>c. if c = CHR 0x22 then [c, c] else [c]) f) @ [CHR 0x22]
      else f)"

definition csv_writerow :: "string list \<Rightarrow> string" where
  "csv_writerow fs =
     (if fs = [[]] then [CHR 0x22, CHR 0x22] else join '','' (map csv_field fs))
     @ [CHR 0x0D, CHR 0x0A]"

text \<open>
  \<open>DictWriter._dict_to_list\<close>: a key outside \<open>fieldnames\<close> raises \<open>ValueError\<close>;
  a field name the row lacks is written empty.
\<close>

definition dict_to_list :: "string list \<Rightarrow> (string \<times> json) list \<Rightarrow> string + string list" where
  "dict_to_list fieldnames rowdict =
     (if list_ex (\<lambda>k. k \<notin> set fieldnames) (map fst rowdict) then Inl ''ValueError''
      else Inr (map (\<lambda>k. case map_of rowdict k of None \<Rightarrow> [] | Some v \<Rightarrow> csv_str v) fieldnames))"

fun writerows :: "string list \<Rightarrow> (string \<times> json) list list \<Rightarrow> string + string" where
  "writerows fieldnames [] = Inr []"
| "writerows fieldnames (d # ds) =
     (case dict_to_list fieldnames d of
        Inl x \<Rightarrow> Inl x
      | Inr fs \<Rightarrow>
          (case writerows fieldnames ds of
             Inl x \<Rightarrow> Inl x
           | Inr out \<Rightarrow> Inr (csv_writerow fs @ out)))"

definition export_dict :: "env \<Rightarrow> visitor \<Rightarrow> (string \<times> json) list" where
  "export_dict e v =
     [(''id'', JNum (visitor_id v)),
      (''session_id'', JStr (session_id v)),
      (''ip_address'', JStr (ip_address v)),
      (''user_agent'', JStr (user_agent v)),
      (''timestamp'', JStr (isoformat e (timestamp v))),
      (''page'', JStr (page v)),
      (''action'', JStr (action v)),
      (''referrer'', opt_json (referrer v)),
      (''host'', JStr (host v)),
      (''method'', JStr (http_method v)),
      (''platform'', JStr (platform v)),
      (''browser'', JStr (browser v))]"

text \<open>\<open>data[0].keys() if data else []\<close>\<close>

definition fieldnames_of :: "(string \<times> json) list list \<Rightarrow> string list" where
  "fieldnames_of data = (case data of [] \<Rightarrow> [] | d # ds \<Rightarrow> map fst d)"

definition export_logs :: "env \<Rightarrow> request \<Rightarrow> world \<Rightarrow> response \<times> world" where
  "export_logs e r s =
     (let qs = run_queries e 1 s;
          data = map (export_dict e) (order_by_desc timestamp (visitors s));
          fieldnames = fieldnames_of data;
          header = csv_writerow fieldnames;
          failed = Json (query_failed (''l'' @ [CHR 0x27] @ ''export''))
      in case fst qs of
           Some x \<Rightarrow> (failed, app_log ERROR (''Error exporting logs: '' @ x) (snd qs))
         | None \<Rightarrow>
             (case writerows fieldnames data of
                Inl x \<Rightarrow> (failed, app_log ERROR (''Error exporting logs: '' @ x) (snd qs))
              | Inr out \<Rightarrow>
                  (Csv (header @ out)
                     [(''Content-Type'', ''text/csv''),
                      (''Content-Disposition'',
                         ''attachment; filename=visitor_logs_''
                           @ now_strftime e (tick (snd qs)) @ ''.csv'')],
                   snd qs)))"

section \<open>Routing and one request\<close>

datatype endpoint =
    Index | Portfolio | About | Contact | Contact_submit
  | Admin | Admin_logs | Admin_stats | Admin_messages | Export_logs
  | No_view

text \<open>
  A rule registered without \<open>methods\<close> answers GET and, through it, HEAD. Everything
  that reaches no view of this program is \<open>No_view\<close>: the static files, unknown
  paths, methods a rule does not allow.
\<close>

definition is_get :: "string \<Rightarrow> bool" where
  "is_get m = (m = ''GET'' \<or> m = ''HEAD'')"

definition route :: "string \<Rightarrow> string \<Rightarrow> endpoint" where
  "route m p =
     (if p = ''/'' \<and> is_get m then Index
      else if p = ''/portfolio'' \<and> is_get m then Portfolio
      else if p = ''/about'' \<and> is_get m then About
      else if p = ''/contact'' \<and> is_get m then Contact
      else if p = ''/contact'' \<and> m = ''POST'' then Contact_submit
      else if p = ''/admin'' \<and> is_get m then Admin
      else if p = ''/admin/logs'' \<and> is_get m then Admin_logs
      else if p = ''/admin/stats'' \<and> is_get m then Admin_stats
      else if p = ''/admin/messages'' \<and> is_get m then Admin_messages
      else if p = ''/admin/export'' \<and> is_get m then Export_logs
      else No_view)"

definition dispatch :: "env \<Rightarrow> request \<Rightarrow> world \<Rightarrow> response \<times> world" where
  "dispatch e r s =
     (case route (req_method r) (path r) of
        Index \<Rightarrow> index_view e r s
      | Portfolio \<Rightarrow> portfolio e r s
      | About \<Rightarrow> about e r s
      | Contact \<Rightarrow> contact e r s
      | Contact_submit \<Rightarrow> contact_submit e r s
      | Admin \<Rightarrow> admin e r s
      | Admin_logs \<Rightarrow> admin_logs e r s
      | Admin_stats \<Rightarrow> admin_stats e r s
      | Admin_messages \<Rightarrow> admin_messages e r s
      | Export_logs \<Rightarrow> export_logs e r s
      | No_view \<Rightarrow> (Framework, s))"

text \<open>
  One request: it works in a database session of its own, with nothing pending at the
  start; the middleware runs, then the view; at teardown the database session is
  dropped with whatever was still pending. The cookie session and the tables live on.
\<close>

definition handle_request :: "env \<Rightarrow> request \<Rightarrow> world \<Rightarrow> response \<times> world" where
  "handle_request e r s =
     (let s1 = before_request e r (s\<lparr>pending := []\<rparr>);
          rs = dispatch e r s1
      in (fst rs, (snd rs)\<lparr>pending := []\<rparr>))"

text \<open>The requests of one client session, one after the other.\<close>

fun run_session :: "env \<Rightarrow> request list \<Rightarrow> world \<Rightarrow> world" where
  "run_session e [] s = s"
| "run_session e (r # rs) s = run_session e rs (snd (handle_request e r s))"

text \<open>The rows a step has added to the Visitor table.\<close>

definition new_visitors :: "world \<Rightarrow> world \<Rightarrow> visitor list" where
  "new_visitors s s' = drop (length (visitors s)) (visitors s')"

definition new_messages :: "world \<Rightarrow> world \<Rightarrow> contact_message list" where
  "new_messages s s' = drop (length (messages s)) (messages s')"

section \<open>Concrete inputs\<close>

text \<open>A storage engine that never raises, and one that raises at every operation.\<close>

definition env_ok :: env where
  "env_ok = \<lparr>uuid4 = (\<lambda>n. ''uuid-'' @ str_nat n), utcnow = (\<lambda>n. 1000 + n),
             storage_raises = (\<lambda>n. None), isoformat = str_nat,
             now_strftime = (\<lambda>n. ''20240101_000000'')\<rparr>"

definition env_down :: env where
  "env_down = env_ok\<lparr>storage_raises := (\<lambda>n. Some ''OperationalError'')\<rparr>"

text \<open>
  A storage engine that raises at its third operation only: in a contact-form request
  that is the commit of the Visitor row written by the handler.
\<close>

definition env_log_fails :: env where
  "env_log_fails = env_ok\<lparr>storage_raises := (\<lambda>n. if n = 2 then Some ''DataError'' else None)\<rparr>"

definition world0 :: world where
  "world0 = \<lparr>visitors = [], messages = [], pending = [], session = Map.empty,
             logger = [], tick = 0, drawn = 0\<rparr>"

definition req :: "string \<Rightarrow> string \<Rightarrow> request" where
  "req m p = \<lparr>path = p, req_method = m, req_host = ''example.org'', req_referrer = None,
              environ = [''REMOTE_ADDR'' \<mapsto> ''127.0.0.1''],
              headers = [''User-Agent'' \<mapsto> ''Mozilla/5.0 (Windows NT 10.0) Chrome/91.0''],
              form = Map.empty\<rparr>"

text \<open>A request whose forwarded-for header is there but empty.\<close>

definition req_empty_xff :: request where
  "req_empty_xff =
     (req ''GET'' ''/'')\<lparr>environ := [''HTTP_X_FORWARDED_FOR'' \<mapsto> [],
                                     ''HTTP_X_REAL_IP'' \<mapsto> ''10.0.0.1'',
                                     ''REMOTE_ADDR'' \<mapsto> ''127.0.0.1'']\<rparr>"

definition req_proxied :: request where
  "req_proxied =
     (req ''GET'' ''/'')\<lparr>environ := [''HTTP_X_FORWARDED_FOR'' \<mapsto> ''203.0.113.7, 10.0.0.2'',
                                     ''HTTP_X_REAL_IP'' \<mapsto> ''10.0.0.1'',
                                     ''REMOTE_ADDR'' \<mapsto> ''127.0.0.1'']\<rparr>"

definition req_contact_post :: request where
  "req_contact_post =
     (req ''POST'' ''/contact'')\<lparr>form := [''name'' \<mapsto> ''Ada'', ''email'' \<mapsto> ''ada@example.org'',
                                          ''message'' \<mapsto> ''Hello'']\<rparr>"

text \<open>
  Two clients behind one address: each asks for \<open>/\<close> once, each with a cookie
  session of its own.
\<close>

definition world_shared_ip :: world where
  "world_shared_ip =
     (let s1 = snd (handle_request env_ok (req ''GET'' ''/'') world0)
      in snd (handle_request env_ok (req ''GET'' ''/'') (s1\<lparr>session := Map.empty\<rparr>)))"

text \<open>The keys of a row dictionary of the export, in the order in which it is built.\<close>

definition export_fields :: "string list" where
  "export_fields = [''id'', ''session_id'', ''ip_address'', ''user_agent'', ''timestamp'', ''page'',
                    ''action'', ''referrer'', ''host'', ''method'', ''platform'', ''browser'']"

section \<open>Strings: basic facts\<close>

lemma str_in_iff: "str_in n h \<longleftrightarrow> (\<exists>ps ss. h = ps @ n @ ss)"
proof (induction h)
  case Nil
  then show ?case by auto
next
  case (Cons c cs)
  show ?case
  proof
    assume "str_in n (c # cs)"
    then consider "prefix n (c # cs)" | "str_in n cs" by auto
    then show "\<exists>ps ss. c # cs = ps @ n @ ss"
    proof cases
      case 1
      then obtain zs where "c # cs = n @ zs" by (auto simp: prefix_def)
      then have "c # cs = [] @ n @ zs" by simp
      then show ?thesis by blast
    next
      case 2
      then obtain ps ss where "cs = ps @ n @ ss" using Cons.IH by blast
      then have "c # cs = (c # ps) @ n @ ss" by simp
      then show ?thesis by blast
    qed
  next
    assume "\<exists>ps ss. c # cs = ps @ n @ ss"
    then obtain ps ss where e: "c # cs = ps @ n @ ss" by blast
    show "str_in n (c # cs)"
    proof (cases ps)
      case Nil
      with e have "prefix n (c # cs)" by (auto simp: prefix_def)
      then show ?thesis by simp
    next
      case (Cons p ps')
      with e have "cs = ps' @ n @ ss" by simp
      then show ?thesis using Cons.IH by auto
    qed
  qed
qed

lemma split_nonempty: "split sep s \<noteq> []"
  by (induction s) (auto split: list.splits)

lemma hd_split: "hd (split sep s) = takeWhile (\<lambda>c. c \<noteq> sep) s"
  using split_nonempty by (induction s) (auto split: list.splits)

lemma ua_lowered: "(if truthy (Some ua) then lower (the (Some ua)) else []) = lower ua"
  by (simp add: truthy_def lower_def)

section \<open>The client address\<close>

text \<open>
  C4, as stated: a forwarded-for header counts as soon as it is present. It fails on
  a request whose forwarded-for header is present and empty: the program passes on to
  the real-IP header, where the stated rule gives the empty first value.
\<close>

theorem get_client_ip_counterexample:
  "environ req_empty_xff ''HTTP_X_FORWARDED_FOR'' = Some []
   \<and> client_ip_spec req_empty_xff = []
   \<and> get_client_ip req_empty_xff = ''10.0.0.1''
   \<and> get_client_ip req_empty_xff \<noteq> client_ip_spec req_empty_xff"
  by (simp add: req_empty_xff_def req_def get_client_ip_def client_ip_spec_def truthy_def)

text \<open>
  C4, amended: the forwarded-for header decides when it is present and not empty, and
  then the address is its first comma-separated value; otherwise the real-IP header
  decides when it is present and not empty; otherwise the connection address, when the
  environment has one; otherwise the literal \<open>Unknown\<close>.
\<close>

theorem get_client_ip_priority:
  "(\<forall>v. environ r ''HTTP_X_FORWARDED_FOR'' = Some v \<and> v \<noteq> [] \<longrightarrow>
        get_client_ip r = takeWhile (\<lambda>c. c \<noteq> CHR '','') v)
   \<and> (\<not> truthy (environ r ''HTTP_X_FORWARDED_FOR'') \<longrightarrow>
        (\<forall>w. environ r ''HTTP_X_REAL_IP'' = Some w \<and> w \<noteq> [] \<longrightarrow> get_client_ip r = w))
   \<and> (\<not> truthy (environ r ''HTTP_X_FORWARDED_FOR'') \<and> \<not> truthy (environ r ''HTTP_X_REAL_IP'') \<longrightarrow>
        (\<forall>a. environ r ''REMOTE_ADDR'' = Some a \<longrightarrow> get_client_ip r = a)
        \<and> (environ r ''REMOTE_ADDR'' = None \<longrightarrow> get_client_ip r = ''Unknown''))"
  by (auto simp add: get_client_ip_def truthy_def hd_split)

theorem get_client_ip_priority_witness:
  "environ req_proxied ''HTTP_X_FORWARDED_FOR'' = Some ''203.0.113.7, 10.0.0.2''
   \<and> get_client_ip req_proxied = ''203.0.113.7''"
proof -
  have h: "environ req_proxied ''HTTP_X_FORWARDED_FOR'' = Some ''203.0.113.7, 10.0.0.2''"
    by (simp add: req_proxied_def req_def)
  have "get_client_ip req_proxied = takeWhile (\<lambda>c. c \<noteq> CHR '','') ''203.0.113.7, 10.0.0.2''"
    using get_client_ip_priority [of req_proxied] h by blast
  with h show ?thesis by simp
qed

section \<open>The user-agent classifier\<close>

text \<open>
  C5: a user agent whose lower-case form contains \<open>chrome\<close> is classified as Chrome,
  whatever else it contains; the example of the specification gives Chrome on Windows;
  and every input, the empty string and \<open>None\<close> included, yields a pair of names.
\<close>

theorem chrome_first:
  "(\<forall>ua. str_in ''chrome'' (lower ua) \<longrightarrow> fst (parse_user_agent (Some ua)) = ''Chrome'')
   \<and> parse_user_agent (Some ''Mozilla/5.0 (Windows NT 10.0) Chrome/91.0'') = (''Chrome'', ''Windows'')
   \<and> parse_user_agent (Some []) = (''Unknown'', ''Unknown'')
   \<and> parse_user_agent None = (''Unknown'', ''Unknown'')
   \<and> (\<forall>x. fst (parse_user_agent x) \<in> {''Chrome'', ''Firefox'', ''Safari'', ''Edge'', ''Unknown''}
          \<and> snd (parse_user_agent x) \<in> {''Windows'', ''macOS'', ''Linux'', ''Android'', ''iOS'', ''Unknown''})"
proof (intro conjI allI impI)
  fix ua
  assume "str_in ''chrome'' (lower ua)"
  then show "fst (parse_user_agent (Some ua)) = ''Chrome''"
    unfolding parse_user_agent_def ua_lowered by (simp add: Let_def)
next
  show "parse_user_agent (Some ''Mozilla/5.0 (Windows NT 10.0) Chrome/91.0'') = (''Chrome'', ''Windows'')"
    by code_simp
next
  show "parse_user_agent (Some []) = (''Unknown'', ''Unknown'')"
    by code_simp
next
  show "parse_user_agent None = (''Unknown'', ''Unknown'')"
    by code_simp
next
  fix x
  show "fst (parse_user_agent x) \<in> {''Chrome'', ''Firefox'', ''Safari'', ''Edge'', ''Unknown''}"
    by (simp add: parse_user_agent_def Let_def)
next
  fix x
  show "snd (parse_user_agent x) \<in> {''Windows'', ''macOS'', ''Linux'', ''Android'', ''iOS'', ''Unknown''}"
    by (simp add: parse_user_agent_def Let_def)
qed

theorem chrome_first_witness:
  "str_in ''chrome'' (lower ''Mozilla/5.0 (X11) AppleWebKit/537.36 Chrome/91.0 Safari/537.36'')
   \<and> str_in ''safari'' (lower ''Mozilla/5.0 (X11) AppleWebKit/537.36 Chrome/91.0 Safari/537.36'')
   \<and> fst (parse_user_agent (Some ''Mozilla/5.0 (X11) AppleWebKit/537.36 Chrome/91.0 Safari/537.36''))
       = ''Chrome''"
proof -
  have a: "str_in ''chrome'' (lower ''Mozilla/5.0 (X11) AppleWebKit/537.36 Chrome/91.0 Safari/537.36'')"
    by code_simp
  have b: "str_in ''safari'' (lower ''Mozilla/5.0 (X11) AppleWebKit/537.36 Chrome/91.0 Safari/537.36'')"
    by code_simp
  from chrome_first a
  have "fst (parse_user_agent (Some ''Mozilla/5.0 (X11) AppleWebKit/537.36 Chrome/91.0 Safari/537.36''))
          = ''Chrome''"
    by blast
  with a b show ?thesis by blast
qed

text \<open>
  C10: a user agent whose lower-case form contains \<open>mac\<close> and not \<open>windows\<close> is
  classified as macOS and never as iOS, also when it contains \<open>iphone\<close> or \<open>ipad\<close>:
  the test for \<open>mac\<close> comes first.
\<close>

theorem mac_before_ios:
  assumes "str_in ''mac'' (lower ua)" and "\<not> str_in ''windows'' (lower ua)"
  shows "snd (parse_user_agent (Some ua)) = ''macOS''
         \<and> snd (parse_user_agent (Some ua)) \<noteq> ''iOS''"
  using assms unfolding parse_user_agent_def ua_lowered by (simp add: Let_def)

theorem mac_before_ios_witness:
  "str_in ''iphone'' (lower ''Mozilla/5.0 (iPhone; CPU iPhone OS 14_0 like Mac OS X)'')
   \<and> snd (parse_user_agent (Some ''Mozilla/5.0 (iPhone; CPU iPhone OS 14_0 like Mac OS X)'')) = ''macOS''"
proof -
  have a: "str_in ''mac'' (lower ''Mozilla/5.0 (iPhone; CPU iPhone OS 14_0 like Mac OS X)'')"
    by code_simp
  have b: "\<not> str_in ''windows'' (lower ''Mozilla/5.0 (iPhone; CPU iPhone OS 14_0 like Mac OS X)'')"
    by code_simp
  have c: "str_in ''iphone'' (lower ''Mozilla/5.0 (iPhone; CPU iPhone OS 14_0 like Mac OS X)'')"
    by code_simp
  from mac_before_ios [OF a b] c show ?thesis by blast
qed


section \<open>The visit logger\<close>

lemma log_visitor_raise:
  assumes "storage_raises e (tick s) = Some x"
  shows "visitors (log_visitor e r pg act s) = visitors s"
    and "messages (log_visitor e r pg act s) = messages s"
    and "session (log_visitor e r pg act s) = session s"
    and "pending (log_visitor e r pg act s) = []"
    and "\<exists>y. logger (log_visitor e r pg act s) = logger s @ [(ERROR, ''Error logging visitor: '' @ y)]"
  using assms
  by (simp_all add: log_visitor_def commit_def rollback_def app_log_def Let_def)

lemma log_visitor_delta:
  assumes "pending s = []"
  shows "\<exists>vs. visitors (log_visitor e r pg act s) = visitors s @ vs
     \<and> length vs = (if storage_raises e (tick s) = None then 1 else 0)
     \<and> (\<forall>v\<in>set vs. page v = pg \<and> action v = act \<and> ip_address v = get_client_ip r
           \<and> session_id v = (case session s ''session_id'' of None \<Rightarrow> uuid4 e (drawn s) | Some y \<Rightarrow> y))"
  using assms
  by (cases "storage_raises e (tick s)")
     (simp_all add: log_visitor_def commit_def rollback_def app_log_def Let_def)

lemma log_visitor_frame:
  assumes "pending s = []"
  shows "messages (log_visitor e r pg act s) = messages s"
    and "session (log_visitor e r pg act s) = session s"
    and "pending (log_visitor e r pg act s) = []"
    and "tick (log_visitor e r pg act s) = Suc (tick s)"
  using assms
  by (simp_all add: log_visitor_def commit_def rollback_def app_log_def Let_def split: option.splits)

lemma flush_row_session: "session (flush_row e t x s) = session s"
  by (cases x) simp_all

lemma fold_flush_session: "session (fold (flush_row e t) xs s) = session s"
  by (induction xs arbitrary: s) (simp_all add: flush_row_session)

lemma log_visitor_session: "session (log_visitor e r pg act s) = session s"
  by (simp add: log_visitor_def commit_def rollback_def app_log_def Let_def fold_flush_session
      split: option.splits)

lemma before_request_session:
  "session (before_request e r s) ''session_id'' =
     Some (case session s ''session_id'' of None \<Rightarrow> uuid4 e (drawn s) | Some y \<Rightarrow> y)"
  by (simp add: before_request_def Let_def log_visitor_session split: option.splits)

lemma before_request_delta:
  assumes "pending s = []"
  shows "\<exists>vs. visitors (before_request e r s) = visitors s @ vs
     \<and> length vs = (if \<not> prefix ''/static'' (path r) \<and> path r \<noteq> ''/admin/logs''
                         \<and> storage_raises e (tick s) = None then 1 else 0)
     \<and> (\<forall>v\<in>set vs. page v = path r \<and> action v = ''VISIT''
           \<and> session_id v = (case session s ''session_id'' of None \<Rightarrow> uuid4 e (drawn s) | Some y \<Rightarrow> y))"
proof (cases "session s ''session_id''")
  case None
  let ?s1 = "s\<lparr>session := (session s)(''session_id'' \<mapsto> uuid4 e (drawn s)), drawn := Suc (drawn s)\<rparr>"
  have p: "pending ?s1 = []" using assms by simp
  from log_visitor_delta [OF p, of e r "path r" "''VISIT''"] None
  show ?thesis by (auto simp add: before_request_def Let_def)
next
  case (Some x)
  from log_visitor_delta [OF assms, of e r "path r" "''VISIT''"] Some
  show ?thesis by (auto simp add: before_request_def Let_def)
qed

lemma before_request_frame:
  assumes "pending s = []"
  shows "messages (before_request e r s) = messages s"
    and "pending (before_request e r s) = []"
    and "tick (before_request e r s) =
           (if \<not> prefix ''/static'' (path r) \<and> path r \<noteq> ''/admin/logs'' then Suc (tick s) else tick s)"
  using assms
  by (simp_all add: before_request_def Let_def log_visitor_frame)


section \<open>The views\<close>

lemma run_queries_frame:
  "visitors (snd (run_queries e n s)) = visitors s
   \<and> messages (snd (run_queries e n s)) = messages s
   \<and> session (snd (run_queries e n s)) = session s
   \<and> pending (snd (run_queries e n s)) = pending s"
  by (induction n arbitrary: s) (simp_all split: option.splits)

lemma run_queries_ok:
  "(\<forall>k<n. storage_raises e (tick s + k) = None) \<Longrightarrow> fst (run_queries e n s) = None"
proof (induction n arbitrary: s)
  case 0
  then show ?case by simp
next
  case (Suc n)
  from Suc.prems have h0: "storage_raises e (tick s) = None" by force
  have "\<forall>k<n. storage_raises e (tick (s\<lparr>tick := Suc (tick s)\<rparr>) + k) = None"
  proof (intro allI impI)
    fix k assume "k < n"
    then have "Suc k < Suc n" by simp
    with Suc.prems have "storage_raises e (tick s + Suc k) = None" by blast
    then show "storage_raises e (tick (s\<lparr>tick := Suc (tick s)\<rparr>) + k) = None" by simp
  qed
  from Suc.IH [OF this] h0 show ?case by simp
qed

lemma read_views_frame:
  "visitors (snd (admin_logs e r s)) = visitors s"
  "visitors (snd (admin_stats e r s)) = visitors s"
  "visitors (snd (admin_messages e r s)) = visitors s"
  "visitors (snd (export_logs e r s)) = visitors s"
  "session (snd (admin_logs e r s)) = session s"
  "session (snd (admin_stats e r s)) = session s"
  "session (snd (admin_messages e r s)) = session s"
  "session (snd (export_logs e r s)) = session s"
  "messages (snd (admin_logs e r s)) = messages s"
  "messages (snd (admin_stats e r s)) = messages s"
  "messages (snd (admin_messages e r s)) = messages s"
  "messages (snd (export_logs e r s)) = messages s"
  by (simp_all add: admin_logs_def admin_stats_def admin_messages_def export_logs_def
      app_log_def Let_def run_queries_frame split: option.splits sum.splits)

lemma contact_submit_delta:
  assumes "pending s = []"
  shows "\<exists>vs. visitors (snd (contact_submit e r s)) = visitors s @ vs
     \<and> length vs \<le> 1
     \<and> (\<forall>v\<in>set vs. page v = ''/contact'' \<and> action v = ''CONTACT_SUBMIT:'' @ fmt (form r ''name'')
           \<and> session_id v = (case session s ''session_id'' of None \<Rightarrow> uuid4 e (drawn s) | Some y \<Rightarrow> y))"
    and "session (snd (contact_submit e r s)) = session s"
proof -
  let ?s1 = "s\<lparr>pending := pending s @ [Message_row (form r ''name'') (form r ''email'') (form r ''message'') (get_client_ip r)]\<rparr>"
  let ?cs = "commit e ?s1"
  show "session (snd (contact_submit e r s)) = session s"
    by (simp add: contact_submit_def Let_def commit_def app_log_def log_visitor_session
        fold_flush_session split: option.splits)
  show "\<exists>vs. visitors (snd (contact_submit e r s)) = visitors s @ vs
     \<and> length vs \<le> 1
     \<and> (\<forall>v\<in>set vs. page v = ''/contact'' \<and> action v = ''CONTACT_SUBMIT:'' @ fmt (form r ''name'')
           \<and> session_id v = (case session s ''session_id'' of None \<Rightarrow> uuid4 e (drawn s) | Some y \<Rightarrow> y))"
  proof (cases "fst ?cs")
    case (Some x)
    then have "visitors (snd (contact_submit e r s)) = visitors s"
      using assms by (auto simp add: contact_submit_def Let_def commit_def app_log_def split: option.splits if_splits)
    then show ?thesis by simp
  next
    case None
    define s2 where "s2 = snd ?cs"
    define tag where "tag = ''CONTACT_SUBMIT:'' @ fmt (form r ''name'')"
    have p: "pending s2 = []" "visitors s2 = visitors s"
            "session s2 = session s" "drawn s2 = drawn s"
      using None assms unfolding s2_def
      by (auto simp add: commit_def Let_def split: option.splits if_splits)
    from log_visitor_delta [OF p(1), of e r "''/contact''" tag]
    obtain vs where vs: "visitors (log_visitor e r ''/contact'' tag s2) = visitors s2 @ vs"
      "length vs = (if storage_raises e (tick s2) = None then 1 else 0)"
      "\<forall>v\<in>set vs. page v = ''/contact'' \<and> action v = tag
           \<and> ip_address v = get_client_ip r
           \<and> session_id v = (case session s2 ''session_id'' of None \<Rightarrow> uuid4 e (drawn s2) | Some y \<Rightarrow> y)"
      by blast
    have eq: "snd (contact_submit e r s) = log_visitor e r ''/contact'' tag s2"
      using None unfolding s2_def tag_def by (simp add: contact_submit_def Let_def)
    have 1: "visitors (snd (contact_submit e r s)) = visitors s @ vs"
      using eq vs(1) p(2) by simp
    have 2: "length vs \<le> 1" using vs(2) by (simp split: if_splits)
    have 3: "\<forall>v\<in>set vs. page v = ''/contact'' \<and> action v = tag
           \<and> session_id v = (case session s ''session_id'' of None \<Rightarrow> uuid4 e (drawn s) | Some y \<Rightarrow> y)"
      using vs(3) unfolding p(3) p(4) by blast
    from 1 2 3 show ?thesis unfolding tag_def by blast
  qed
qed

lemma dispatch_delta:
  assumes "pending s = []"
  shows "\<exists>vs. visitors (snd (dispatch e r s)) = visitors s @ vs
     \<and> length vs \<le> 1
     \<and> (route (req_method r) (path r) \<notin> {Portfolio, About, Contact, Contact_submit} \<longrightarrow> vs = [])
     \<and> (\<forall>v\<in>set vs.
           session_id v = (case session s ''session_id'' of None \<Rightarrow> uuid4 e (drawn s) | Some y \<Rightarrow> y))"
proof (cases "route (req_method r) (path r)")
  case Portfolio
  from log_visitor_delta [OF assms, of e r "''/portfolio''" "''PORTFOLIO_VIEW''"] Portfolio
  show ?thesis by (auto simp add: dispatch_def portfolio_def split: if_splits)
next
  case About
  from log_visitor_delta [OF assms, of e r "''/about''" "''ABOUT_VIEW''"] About
  show ?thesis by (auto simp add: dispatch_def about_def split: if_splits)
next
  case Contact
  from log_visitor_delta [OF assms, of e r "''/contact''" "''CONTACT_VIEW''"] Contact
  show ?thesis by (auto simp add: dispatch_def contact_def split: if_splits)
next
  case Contact_submit
  from contact_submit_delta(1) [OF assms, of e r] Contact_submit
  show ?thesis by (auto simp add: dispatch_def)
qed (simp_all add: dispatch_def index_view_def admin_def read_views_frame)

lemma dispatch_session: "session (snd (dispatch e r s)) = session s"
  by (cases "route (req_method r) (path r)")
     (simp_all add: dispatch_def index_view_def admin_def read_views_frame portfolio_def about_def
        contact_def log_visitor_session contact_submit_def Let_def commit_def app_log_def
        fold_flush_session split: option.splits)


section \<open>One request\<close>

lemma route_logging_paths:
  assumes "route m p \<in> {Portfolio, About, Contact, Contact_submit}"
  shows "p = ''/portfolio'' \<or> p = ''/about'' \<or> p = ''/contact''"
  using assms by (simp add: route_def split: if_splits)

lemma route_unlogged:
  assumes "prefix ''/static'' p \<or> p = ''/admin/logs''"
  shows "route m p \<notin> {Portfolio, About, Contact, Contact_submit}"
proof
  assume "route m p \<in> {Portfolio, About, Contact, Contact_submit}"
  then have "p = ''/portfolio'' \<or> p = ''/about'' \<or> p = ''/contact''"
    by (rule route_logging_paths)
  with assms show False by (auto simp add: prefix_code)
qed

lemma handle_request_delta:
  "\<exists>vs ws. visitors (snd (handle_request e r s)) = visitors s @ vs @ ws
     \<and> length vs = (if \<not> prefix ''/static'' (path r) \<and> path r \<noteq> ''/admin/logs''
                         \<and> storage_raises e (tick s) = None then 1 else 0)
     \<and> (\<forall>v\<in>set vs. page v = path r \<and> action v = ''VISIT'')
     \<and> length ws \<le> 1
     \<and> (route (req_method r) (path r) \<notin> {Portfolio, About, Contact, Contact_submit} \<longrightarrow> ws = [])
     \<and> (\<forall>v\<in>set (vs @ ws).
           session_id v = (case session s ''session_id'' of None \<Rightarrow> uuid4 e (drawn s) | Some y \<Rightarrow> y))"
proof -
  define s0 where "s0 = s\<lparr>pending := []\<rparr>"
  define s1 where "s1 = before_request e r s0"
  define sid where "sid = (case session s ''session_id'' of None \<Rightarrow> uuid4 e (drawn s) | Some y \<Rightarrow> y)"
  have p0: "pending s0 = []" "visitors s0 = visitors s" "tick s0 = tick s"
    "session s0 = session s" "drawn s0 = drawn s"
    by (simp_all add: s0_def)
  from before_request_delta [OF p0(1), of e r]
  obtain vs where vs: "visitors s1 = visitors s0 @ vs"
    "length vs = (if \<not> prefix ''/static'' (path r) \<and> path r \<noteq> ''/admin/logs''
                         \<and> storage_raises e (tick s0) = None then 1 else 0)"
    "\<forall>v\<in>set vs. page v = path r \<and> action v = ''VISIT''
           \<and> session_id v = (case session s0 ''session_id'' of None \<Rightarrow> uuid4 e (drawn s0) | Some y \<Rightarrow> y)"
    unfolding s1_def by blast
  have p1: "pending s1 = []"
    unfolding s1_def by (rule before_request_frame(2) [OF p0(1)])
  have sess1: "session s1 ''session_id'' = Some sid"
    unfolding s1_def sid_def using before_request_session [of e r s0] by (simp add: p0 cong: option.case_cong)
  from dispatch_delta [OF p1, of e r]
  obtain ws where ws: "visitors (snd (dispatch e r s1)) = visitors s1 @ ws"
    "length ws \<le> 1"
    "route (req_method r) (path r) \<notin> {Portfolio, About, Contact, Contact_submit} \<longrightarrow> ws = []"
    "\<forall>v\<in>set ws. session_id v = (case session s1 ''session_id'' of None \<Rightarrow> uuid4 e (drawn s1) | Some y \<Rightarrow> y)"
    by blast
  have a: "visitors (snd (handle_request e r s)) = visitors s @ vs @ ws"
    using vs(1) ws(1) by (simp add: handle_request_def Let_def s1_def [symmetric] s0_def [symmetric] p0)
  have b: "\<forall>v\<in>set ws. session_id v = sid"
    using ws(4) by (simp add: sess1 cong: option.case_cong)
  have c: "\<forall>v\<in>set vs. page v = path r \<and> action v = ''VISIT'' \<and> session_id v = sid"
    using vs(3) unfolding p0(4) p0(5) sid_def by blast
  have d: "length vs = (if \<not> prefix ''/static'' (path r) \<and> path r \<noteq> ''/admin/logs''
                         \<and> storage_raises e (tick s) = None then 1 else 0)"
    using vs(2) by (simp add: p0)
  from a b c d ws(2,3) show ?thesis
    unfolding sid_def [symmetric] by (intro exI [of _ vs] exI [of _ ws]) auto
qed

lemma handle_request_session:
  "session (snd (handle_request e r s)) ''session_id'' =
     Some (case session s ''session_id'' of None \<Rightarrow> uuid4 e (drawn s) | Some y \<Rightarrow> y)"
  using before_request_session [of e r "s\<lparr>pending := []\<rparr>"]
  by (simp add: handle_request_def Let_def dispatch_session cong: option.case_cong)


text \<open>
  C7: a request for \<open>/admin/logs\<close>, or for a path that starts with the static prefix,
  leaves the Visitor table as it was.
\<close>

theorem no_rows_for_static_and_admin_logs:
  assumes "prefix ''/static'' (path r) \<or> path r = ''/admin/logs''"
  shows "visitors (snd (handle_request e r s)) = visitors s"
proof -
  from handle_request_delta [of e r s]
  obtain vs ws where h: "visitors (snd (handle_request e r s)) = visitors s @ vs @ ws"
    "length vs = (if \<not> prefix ''/static'' (path r) \<and> path r \<noteq> ''/admin/logs''
                         \<and> storage_raises e (tick s) = None then 1 else 0)"
    "route (req_method r) (path r) \<notin> {Portfolio, About, Contact, Contact_submit} \<longrightarrow> ws = []"
    by blast
  from assms h(2) have "vs = []" by auto
  moreover from route_unlogged [OF assms] h(3) have "ws = []" by blast
  ultimately show ?thesis using h(1) by simp
qed



theorem no_rows_for_static_and_admin_logs_witness:
  "path (req ''GET'' ''/admin/logs'') = ''/admin/logs''
   \<and> visitors (snd (handle_request env_ok (req ''GET'' ''/admin/logs'') world0)) = visitors world0
   \<and> prefix ''/static'' (path (req ''GET'' ''/static/css/style.css''))
   \<and> visitors (snd (handle_request env_ok (req ''GET'' ''/static/css/style.css'') world0)) = visitors world0"
proof -
  have a: "path (req ''GET'' ''/admin/logs'') = ''/admin/logs''" by (simp add: req_def)
  have b: "prefix ''/static'' (path (req ''GET'' ''/static/css/style.css''))" by code_simp
  from a have a': "prefix ''/static'' (path (req ''GET'' ''/admin/logs'')) \<or> path (req ''GET'' ''/admin/logs'') = ''/admin/logs''"
    by blast
  from b have b': "prefix ''/static'' (path (req ''GET'' ''/static/css/style.css''))
        \<or> path (req ''GET'' ''/static/css/style.css'') = ''/admin/logs''" by blast
  from no_rows_for_static_and_admin_logs [OF a', of env_ok world0]
       no_rows_for_static_and_admin_logs [OF b', of env_ok world0] a b
  show ?thesis by blast
qed


section \<open>Failures of the visit logger\<close>

lemma contact_submit_raise:
  assumes "storage_raises e (tick s) \<noteq> None"
  shows "visitors (snd (contact_submit e r s)) = visitors s"
    and "messages (snd (contact_submit e r s)) = messages s"
    and "fst (contact_submit e r s) = Json error_payload"
  using assms
  by (auto simp add: contact_submit_def Let_def commit_def app_log_def split: option.splits)

lemma dispatch_down:
  assumes "\<forall>n. storage_raises e n \<noteq> None"
  shows "visitors (snd (dispatch e r s)) = visitors s"
proof -
  from assms obtain x where x: "storage_raises e (tick s) = Some x" by fastforce
  from assms have y: "storage_raises e (tick s) \<noteq> None" by blast
  show ?thesis
    by (cases "route (req_method r) (path r)")
       (simp_all add: dispatch_def index_view_def admin_def read_views_frame portfolio_def
          about_def contact_def log_visitor_raise(1) [OF x] contact_submit_raise(1) [OF y])
qed

lemma before_request_down:
  assumes "\<forall>n. storage_raises e n \<noteq> None"
  shows "visitors (before_request e r s) = visitors s"
proof -
  let ?s1 = "s\<lparr>session := (session s)(''session_id'' \<mapsto> uuid4 e (drawn s)), drawn := Suc (drawn s)\<rparr>"
  from assms obtain x where x: "storage_raises e (tick s) = Some x" by fastforce
  then have x1: "storage_raises e (tick ?s1) = Some x" by simp
  show ?thesis
    using log_visitor_raise(1) [OF x, of r "path r" "''VISIT''"]
          log_visitor_raise(1) [OF x1, of r "path r" "''VISIT''"]
    by (simp add: before_request_def Let_def)
qed

text \<open>
  C3: when the commit inside the visit logger raises, the logger still returns: the
  tables and the cookie session are as before, nothing is left pending (the
  transaction is rolled back) and the error is written to the application log. The
  request goes on: even with a storage engine that raises at every operation the page
  views answer with their page, and no Visitor row is written.
\<close>

theorem log_visitor_failure_swallowed:
  "(storage_raises e (tick s) \<noteq> None \<longrightarrow>
       visitors (log_visitor e r pg act s) = visitors s
     \<and> messages (log_visitor e r pg act s) = messages s
     \<and> session (log_visitor e r pg act s) = session s
     \<and> pending (log_visitor e r pg act s) = []
     \<and> (\<exists>y. logger (log_visitor e r pg act s) = logger s @ [(ERROR, ''Error logging visitor: '' @ y)]))
   \<and> ((\<forall>n. storage_raises e n \<noteq> None) \<longrightarrow>
       visitors (snd (handle_request e r s)) = visitors s
     \<and> (route (req_method r) (path r) = Index \<longrightarrow> fst (handle_request e r s) = Rendered ''index.html'')
     \<and> (route (req_method r) (path r) = Portfolio \<longrightarrow> fst (handle_request e r s) = Rendered ''portfolio.html'')
     \<and> (route (req_method r) (path r) = About \<longrightarrow> fst (handle_request e r s) = Rendered ''about.html'')
     \<and> (route (req_method r) (path r) = Contact \<longrightarrow> fst (handle_request e r s) = Rendered ''contact.html'')
     \<and> (route (req_method r) (path r) = Admin \<longrightarrow> fst (handle_request e r s) = Rendered ''admin.html''))"
proof (intro conjI impI)
  assume "storage_raises e (tick s) \<noteq> None"
  then obtain x where x: "storage_raises e (tick s) = Some x" by blast
  note log_visitor_raise [OF x, of r pg act]
  then show "visitors (log_visitor e r pg act s) = visitors s"
    and "messages (log_visitor e r pg act s) = messages s"
    and "session (log_visitor e r pg act s) = session s"
    and "pending (log_visitor e r pg act s) = []"
    and "\<exists>y. logger (log_visitor e r pg act s) = logger s @ [(ERROR, ''Error logging visitor: '' @ y)]"
    by blast+
next
  assume d: "\<forall>n. storage_raises e n \<noteq> None"
  show "visitors (snd (handle_request e r s)) = visitors s"
    using before_request_down [OF d, of r "s\<lparr>pending := []\<rparr>"]
          dispatch_down [OF d, of r "before_request e r (s\<lparr>pending := []\<rparr>)"]
    by (simp add: handle_request_def Let_def)
next
  assume "route (req_method r) (path r) = Index"
  then show "fst (handle_request e r s) = Rendered ''index.html''"
    by (simp add: handle_request_def Let_def dispatch_def index_view_def)
next
  assume "route (req_method r) (path r) = Portfolio"
  then show "fst (handle_request e r s) = Rendered ''portfolio.html''"
    by (simp add: handle_request_def Let_def dispatch_def portfolio_def)
next
  assume "route (req_method r) (path r) = About"
  then show "fst (handle_request e r s) = Rendered ''about.html''"
    by (simp add: handle_request_def Let_def dispatch_def about_def)
next
  assume "route (req_method r) (path r) = Contact"
  then show "fst (handle_request e r s) = Rendered ''contact.html''"
    by (simp add: handle_request_def Let_def dispatch_def contact_def)
next
  assume "route (req_method r) (path r) = Admin"
  then show "fst (handle_request e r s) = Rendered ''admin.html''"
    by (simp add: handle_request_def Let_def dispatch_def admin_def)
qed

theorem log_visitor_failure_swallowed_witness:
  "storage_raises env_down (tick world0) \<noteq> None
   \<and> (\<forall>n. storage_raises env_down n \<noteq> None)
   \<and> route (req_method (req ''GET'' ''/portfolio'')) (path (req ''GET'' ''/portfolio'')) = Portfolio
   \<and> visitors (log_visitor env_down (req ''GET'' ''/portfolio'') ''/portfolio'' ''PORTFOLIO_VIEW'' world0) = []
   \<and> pending (log_visitor env_down (req ''GET'' ''/portfolio'') ''/portfolio'' ''PORTFOLIO_VIEW'' world0) = []
   \<and> visitors (snd (handle_request env_down (req ''GET'' ''/portfolio'') world0)) = []
   \<and> fst (handle_request env_down (req ''GET'' ''/portfolio'') world0) = Rendered ''portfolio.html''"
proof -
  have a: "storage_raises env_down (tick world0) \<noteq> None" by (simp add: env_down_def)
  have b: "\<forall>n. storage_raises env_down n \<noteq> None" by (simp add: env_down_def)
  have c: "route (req_method (req ''GET'' ''/portfolio'')) (path (req ''GET'' ''/portfolio'')) = Portfolio"
    by code_simp
  have v: "visitors world0 = []" by (simp add: world0_def)
  from log_visitor_failure_swallowed
         [of env_down world0 "req ''GET'' ''/portfolio''" "''/portfolio''" "''PORTFOLIO_VIEW''"]
       a b c v
  show ?thesis by simp
qed


section \<open>The contact form\<close>

lemma commit_message_ok:
  assumes "pending s = []" and "storage_raises e (tick s) = None"
  shows "commit e (s\<lparr>pending := [Message_row (Some n) (Some em) (Some m) ip]\<rparr>) =
     (None, s\<lparr>messages := messages s @
                 [\<lparr>msg_id = Suc (length (messages s)), msg_name = n, msg_email = em,
                   msg_message = m, msg_ip_address = ip, msg_timestamp = utcnow e (tick s),
                   msg_read = False\<rparr>],
               tick := Suc (tick s), pending := []\<rparr>)"
  using assms by (simp add: commit_def Let_def)

text \<open>
  The run in which the storage engine accepts both commits of the handler.
\<close>

lemma contact_submit_valid:
  assumes "pending s = []"
      and "form r ''name'' = Some n" and "form r ''email'' = Some em"
      and "form r ''message'' = Some m"
      and "storage_raises e (tick s) = None" and "storage_raises e (Suc (tick s)) = None"
  shows "fst (contact_submit e r s) = Json success_payload
     \<and> (\<exists>c. messages (snd (contact_submit e r s)) = messages s @ [c]
            \<and> msg_name c = n \<and> msg_email c = em \<and> msg_message c = m
            \<and> msg_ip_address c = get_client_ip r \<and> msg_read c = False)
     \<and> (\<exists>v. visitors (snd (contact_submit e r s)) = visitors s @ [v]
            \<and> action v = ''CONTACT_SUBMIT:'' @ n \<and> page v = ''/contact''
            \<and> ip_address v = get_client_ip r)"
proof -
  define c where "c = \<lparr>msg_id = Suc (length (messages s)), msg_name = n, msg_email = em,
                   msg_message = m, msg_ip_address = get_client_ip r,
                   msg_timestamp = utcnow e (tick s), msg_read = False\<rparr>"
  define s2 where "s2 = s\<lparr>messages := messages s @ [c], tick := Suc (tick s), pending := []\<rparr>"
  define tag where "tag = ''CONTACT_SUBMIT:'' @ n"
  have cm: "commit e (s\<lparr>pending := [Message_row (Some n) (Some em) (Some m) (get_client_ip r)]\<rparr>) = (None, s2)"
    unfolding s2_def c_def by (rule commit_message_ok [OF assms(1) assms(5)])
  have eq: "contact_submit e r s = (Json success_payload, log_visitor e r ''/contact'' tag s2)"
    using assms(1-4) cm by (simp add: contact_submit_def Let_def fmt_def tag_def)
  have p2: "pending s2 = []" "tick s2 = Suc (tick s)" "visitors s2 = visitors s"
    "messages s2 = messages s @ [c]"
    by (simp_all add: s2_def)
  from log_visitor_delta [OF p2(1), of e r "''/contact''" tag]
  obtain vs where vs: "visitors (log_visitor e r ''/contact'' tag s2) = visitors s2 @ vs"
    "length vs = (if storage_raises e (tick s2) = None then 1 else 0)"
    "\<forall>v\<in>set vs. page v = ''/contact'' \<and> action v = tag \<and> ip_address v = get_client_ip r"
    by blast
  from vs(2) assms(6) p2(2) have "length vs = 1" by simp
  then obtain v where v: "vs = [v]" by (cases vs) auto
  have 1: "fst (contact_submit e r s) = Json success_payload" using eq by simp
  have 2: "messages (snd (contact_submit e r s)) = messages s @ [c]"
    using eq p2(4) log_visitor_frame(1) [OF p2(1), of e r "''/contact''" tag] by simp
  have 3: "visitors (snd (contact_submit e r s)) = visitors s @ [v]"
    using eq vs(1) v p2(3) by simp
  have 4: "action v = tag \<and> page v = ''/contact'' \<and> ip_address v = get_client_ip r"
    using vs(3) v by simp
  have 5: "msg_name c = n \<and> msg_email c = em \<and> msg_message c = m
            \<and> msg_ip_address c = get_client_ip r \<and> msg_read c = False"
    by (simp add: c_def)
  from 1 2 3 4 5 show ?thesis unfolding tag_def by blast
qed

text \<open>
  The same submission seen as a whole request: the middleware has logged the request
  as a \<open>VISIT\<close> before the view runs, so the request adds two Visitor rows, of which
  exactly one carries the tag of the submission.
\<close>

lemma contact_post_request:
  assumes "path r = ''/contact''" and "req_method r = ''POST''"
      and "form r ''name'' = Some n" and "form r ''email'' = Some em"
      and "form r ''message'' = Some m"
      and "storage_raises e (tick s) = None" and "storage_raises e (Suc (tick s)) = None"
      and "storage_raises e (Suc (Suc (tick s))) = None"
  shows "fst (handle_request e r s) = Json success_payload
     \<and> (\<exists>c. new_messages s (snd (handle_request e r s)) = [c] \<and> msg_name c = n)
     \<and> (\<exists>v0 v. new_visitors s (snd (handle_request e r s)) = [v0, v]
            \<and> action v0 = ''VISIT'' \<and> action v = ''CONTACT_SUBMIT:'' @ n)
     \<and> length (filter (\<lambda>v. action v = ''CONTACT_SUBMIT:'' @ n)
                 (new_visitors s (snd (handle_request e r s)))) = 1"
proof -
  define s0 where "s0 = s\<lparr>pending := []\<rparr>"
  define s1 where "s1 = before_request e r s0"
  have p0: "pending s0 = []" "visitors s0 = visitors s" "tick s0 = tick s" "messages s0 = messages s"
    by (simp_all add: s0_def)
  have lg: "\<not> prefix ''/static'' (path r) \<and> path r \<noteq> ''/admin/logs''"
    using assms(1) by (simp add: prefix_code)
  from before_request_delta [OF p0(1), of e r] lg assms(6) p0(3)
  obtain vs where vs: "visitors s1 = visitors s0 @ vs" "length vs = 1"
    "\<forall>v\<in>set vs. page v = path r \<and> action v = ''VISIT''"
    unfolding s1_def by auto
  then obtain v0 where v0: "vs = [v0]" by (cases vs) auto
  have p1: "pending s1 = []" "messages s1 = messages s0" "tick s1 = Suc (tick s0)"
    unfolding s1_def using before_request_frame [OF p0(1), of e r] lg by simp_all
  have ok1: "storage_raises e (tick s1) = None" "storage_raises e (Suc (tick s1)) = None"
    using assms(7,8) p1(3) p0(3) by simp_all
  from contact_submit_valid [OF p1(1) assms(3,4,5) ok1]
  obtain c v where cv: "fst (contact_submit e r s1) = Json success_payload"
    "messages (snd (contact_submit e r s1)) = messages s1 @ [c]" "msg_name c = n"
    "visitors (snd (contact_submit e r s1)) = visitors s1 @ [v]"
    "action v = ''CONTACT_SUBMIT:'' @ n"
    by blast
  have rt: "route (req_method r) (path r) = Contact_submit"
    using assms(1,2) by (simp add: route_def is_get_def)
  have hr: "handle_request e r s = (fst (contact_submit e r s1), (snd (contact_submit e r s1))\<lparr>pending := []\<rparr>)"
    by (simp add: handle_request_def Let_def s0_def [symmetric] s1_def [symmetric] dispatch_def rt)
  have nv: "new_visitors s (snd (handle_request e r s)) = [v0, v]"
    using hr cv(4) vs(1) v0 p0(2) by (simp add: new_visitors_def)
  have nm: "new_messages s (snd (handle_request e r s)) = [c]"
    using hr cv(2) p1(2) p0(4) by (simp add: new_messages_def)
  have a0: "action v0 = ''VISIT''" using vs(3) v0 by simp
  have "length (filter (\<lambda>v. action v = ''CONTACT_SUBMIT:'' @ n) [v0, v]) = 1"
    using a0 cv(5) by simp
  with nv nm a0 cv(1,3,5) hr show ?thesis by simp
qed

text \<open>
  When only the commit of the Visitor row raises, the message stays stored, no
  Visitor row is written and the answer is still the success payload.
\<close>

lemma contact_submit_log_failure:
  assumes "pending s = []"
      and "form r ''name'' = Some n" and "form r ''email'' = Some em"
      and "form r ''message'' = Some m"
      and "storage_raises e (tick s) = None" and "storage_raises e (Suc (tick s)) = Some x"
  shows "fst (contact_submit e r s) = Json success_payload
     \<and> length (messages (snd (contact_submit e r s))) = Suc (length (messages s))
     \<and> visitors (snd (contact_submit e r s)) = visitors s"
proof -
  define s2 where "s2 = s\<lparr>messages := messages s @
                 [\<lparr>msg_id = Suc (length (messages s)), msg_name = n, msg_email = em,
                   msg_message = m, msg_ip_address = get_client_ip r,
                   msg_timestamp = utcnow e (tick s), msg_read = False\<rparr>],
               tick := Suc (tick s), pending := []\<rparr>"
  have cm: "commit e (s\<lparr>pending := [Message_row (Some n) (Some em) (Some m) (get_client_ip r)]\<rparr>) = (None, s2)"
    unfolding s2_def by (rule commit_message_ok [OF assms(1) assms(5)])
  have eq: "contact_submit e r s =
      (Json success_payload, log_visitor e r ''/contact'' (''CONTACT_SUBMIT:'' @ n) s2)"
    using assms(1-4) cm by (simp add: contact_submit_def Let_def fmt_def)
  have x: "storage_raises e (tick s2) = Some x" using assms(6) by (simp add: s2_def)
  from log_visitor_raise(1,2) [OF x, of r "''/contact''" "''CONTACT_SUBMIT:'' @ n"] eq
  show ?thesis by (simp add: s2_def)
qed


text \<open>What the two payloads of the contact form say in their \<open>status\<close> field.\<close>

lemma payload_status:
  "jget ''status'' (Json success_payload) = Some (JStr ''success'')"
  "jget ''status'' (Json error_payload) = Some (JStr ''error'')"
  by (simp_all add: jget_def success_payload_def error_payload_def)

text \<open>
  C2, as stated: every contact form with \<open>name\<close>, \<open>email\<close> and \<open>message\<close>
  present yields one ContactMessage row, one Visitor row tagged with the name, and a
  success payload. It fails on a request in which the commit of that Visitor row
  raises: the visit logger swallows the failure, so the answer is the success payload
  and the message is stored, but no Visitor row carries the tag; the only new Visitor
  row is the \<open>VISIT\<close> row of the middleware, and the handler itself adds none.
\<close>

theorem contact_submit_counterexample:
  "form req_contact_post ''name'' = Some ''Ada''
   \<and> form req_contact_post ''email'' = Some ''ada@example.org''
   \<and> form req_contact_post ''message'' = Some ''Hello''
   \<and> route (req_method req_contact_post) (path req_contact_post) = Contact_submit
   \<and> jget ''status'' (fst (handle_request env_log_fails req_contact_post world0)) = Some (JStr ''success'')
   \<and> map msg_name (new_messages world0 (snd (handle_request env_log_fails req_contact_post world0))) = [''Ada'']
   \<and> map action (new_visitors world0 (snd (handle_request env_log_fails req_contact_post world0))) = [''VISIT'']
   \<and> pending (before_request env_log_fails req_contact_post world0) = []
   \<and> new_visitors (before_request env_log_fails req_contact_post world0)
         (snd (contact_submit env_log_fails req_contact_post
                 (before_request env_log_fails req_contact_post world0))) = []"
  by code_simp

text \<open>
  C2, amended: for a contact form with \<open>name\<close>, \<open>email\<close> and \<open>message\<close> present,
  when the commit of the ContactMessage succeeds the handler appends exactly one
  ContactMessage row, holding the three fields and the client address, and answers
  with a payload whose status is \<open>success\<close>; it appends exactly one Visitor row,
  tagged \<open>CONTACT_SUBMIT:\<close> followed by the name, when the commit of that row
  succeeds too, and no Visitor row when that commit raises. When the commit of the
  ContactMessage raises, the handler appends nothing and the status is \<open>error\<close>.
\<close>

theorem contact_submit_outcome:
  assumes "pending s = []"
      and "form r ''name'' = Some n" and "form r ''email'' = Some em"
      and "form r ''message'' = Some m"
  shows "(storage_raises e (tick s) = None \<longrightarrow>
            jget ''status'' (fst (contact_submit e r s)) = Some (JStr ''success'')
          \<and> (\<exists>c. messages (snd (contact_submit e r s)) = messages s @ [c]
                 \<and> msg_name c = n \<and> msg_email c = em \<and> msg_message c = m
                 \<and> msg_ip_address c = get_client_ip r \<and> msg_read c = False)
          \<and> (storage_raises e (Suc (tick s)) = None \<longrightarrow>
                (\<exists>v. visitors (snd (contact_submit e r s)) = visitors s @ [v]
                   \<and> action v = ''CONTACT_SUBMIT:'' @ n \<and> page v = ''/contact''
                   \<and> ip_address v = get_client_ip r))
          \<and> (storage_raises e (Suc (tick s)) \<noteq> None \<longrightarrow>
                visitors (snd (contact_submit e r s)) = visitors s))
     \<and> (storage_raises e (tick s) \<noteq> None \<longrightarrow>
            jget ''status'' (fst (contact_submit e r s)) = Some (JStr ''error'')
          \<and> messages (snd (contact_submit e r s)) = messages s
          \<and> visitors (snd (contact_submit e r s)) = visitors s)"
proof (intro conjI impI)
  assume ok: "storage_raises e (tick s) = None"
  define c where "c = \<lparr>msg_id = Suc (length (messages s)), msg_name = n, msg_email = em,
                   msg_message = m, msg_ip_address = get_client_ip r,
                   msg_timestamp = utcnow e (tick s), msg_read = False\<rparr>"
  define s2 where "s2 = s\<lparr>messages := messages s @ [c], tick := Suc (tick s), pending := []\<rparr>"
  define tag where "tag = ''CONTACT_SUBMIT:'' @ n"
  have cm: "commit e (s\<lparr>pending := [Message_row (Some n) (Some em) (Some m) (get_client_ip r)]\<rparr>) = (None, s2)"
    unfolding s2_def c_def by (rule commit_message_ok [OF assms(1) ok])
  have eq: "contact_submit e r s = (Json success_payload, log_visitor e r ''/contact'' tag s2)"
    using assms cm by (simp add: contact_submit_def Let_def fmt_def tag_def)
  have p2: "pending s2 = []" "tick s2 = Suc (tick s)" "visitors s2 = visitors s"
    "messages s2 = messages s @ [c]"
    by (simp_all add: s2_def)
  show "jget ''status'' (fst (contact_submit e r s)) = Some (JStr ''success'')"
    using eq by (simp add: payload_status)
  have "messages (snd (contact_submit e r s)) = messages s @ [c]"
    using eq p2(4) log_visitor_frame(1) [OF p2(1), of e r "''/contact''" tag] by simp
  moreover have "msg_name c = n \<and> msg_email c = em \<and> msg_message c = m
            \<and> msg_ip_address c = get_client_ip r \<and> msg_read c = False"
    by (simp add: c_def)
  ultimately show "\<exists>c. messages (snd (contact_submit e r s)) = messages s @ [c]
                 \<and> msg_name c = n \<and> msg_email c = em \<and> msg_message c = m
                 \<and> msg_ip_address c = get_client_ip r \<and> msg_read c = False"
    by blast
  from log_visitor_delta [OF p2(1), of e r "''/contact''" tag]
  obtain vs where vs: "visitors (log_visitor e r ''/contact'' tag s2) = visitors s2 @ vs"
    "length vs = (if storage_raises e (tick s2) = None then 1 else 0)"
    "\<forall>v\<in>set vs. page v = ''/contact'' \<and> action v = tag \<and> ip_address v = get_client_ip r"
    by blast
  {
    assume "storage_raises e (Suc (tick s)) = None"
    with vs(2) p2(2) have "length vs = 1" by simp
    then obtain v where v: "vs = [v]" by (cases vs) auto
    have "visitors (snd (contact_submit e r s)) = visitors s @ [v]"
      using eq vs(1) v p2(3) by simp
    moreover have "action v = tag \<and> page v = ''/contact'' \<and> ip_address v = get_client_ip r"
      using vs(3) v by simp
    ultimately show "\<exists>v. visitors (snd (contact_submit e r s)) = visitors s @ [v]
                   \<and> action v = ''CONTACT_SUBMIT:'' @ n \<and> page v = ''/contact''
                   \<and> ip_address v = get_client_ip r"
      unfolding tag_def by blast
  }
  {
    assume "storage_raises e (Suc (tick s)) \<noteq> None"
    with vs(2) p2(2) have "vs = []" by simp
    then show "visitors (snd (contact_submit e r s)) = visitors s"
      using eq vs(1) p2(3) by simp
  }
next
  assume bad: "storage_raises e (tick s) \<noteq> None"
  from contact_submit_raise [OF bad, of r]
  show "jget ''status'' (fst (contact_submit e r s)) = Some (JStr ''error'')"
    and "messages (snd (contact_submit e r s)) = messages s"
    and "visitors (snd (contact_submit e r s)) = visitors s"
    by (simp_all add: payload_status)
qed

theorem contact_submit_outcome_witness:
  "pending world0 = [] \<and> form req_contact_post ''name'' = Some ''Ada''
   \<and> form req_contact_post ''email'' = Some ''ada@example.org''
   \<and> form req_contact_post ''message'' = Some ''Hello''
   \<and> storage_raises env_ok (tick world0) = None
   \<and> storage_raises env_ok (Suc (tick world0)) = None
   \<and> jget ''status'' (fst (contact_submit env_ok req_contact_post world0)) = Some (JStr ''success'')
   \<and> map msg_name (messages (snd (contact_submit env_ok req_contact_post world0))) = [''Ada'']
   \<and> map action (visitors (snd (contact_submit env_ok req_contact_post world0))) = [''CONTACT_SUBMIT:Ada'']"
proof -
  have a: "pending world0 = []" by (simp add: world0_def)
  have b: "form req_contact_post ''name'' = Some ''Ada''"
          "form req_contact_post ''email'' = Some ''ada@example.org''"
          "form req_contact_post ''message'' = Some ''Hello''"
    by (simp_all add: req_contact_post_def req_def)
  have c: "storage_raises env_ok (tick world0) = None" "storage_raises env_ok (Suc (tick world0)) = None"
    by (simp_all add: env_ok_def)
  have d: "visitors world0 = []" "messages world0 = []" by (simp_all add: world0_def)
  from contact_submit_outcome [OF a b, of env_ok] c
  obtain v cm where "jget ''status'' (fst (contact_submit env_ok req_contact_post world0)) = Some (JStr ''success'')"
    "messages (snd (contact_submit env_ok req_contact_post world0)) = messages world0 @ [cm]"
    "msg_name cm = ''Ada''"
    "visitors (snd (contact_submit env_ok req_contact_post world0)) = visitors world0 @ [v]"
    "action v = ''CONTACT_SUBMIT:'' @ ''Ada''"
    by blast
  with a b c d show ?thesis by simp
qed

section \<open>The session identifier\<close>

lemma handle_request_rows:
  "\<exists>vs. visitors (snd (handle_request e r s)) = visitors s @ vs
     \<and> (\<forall>v\<in>set vs.
           session_id v = (case session s ''session_id'' of None \<Rightarrow> uuid4 e (drawn s) | Some y \<Rightarrow> y))"
proof -
  from handle_request_delta [of e r s]
  obtain vs ws where "visitors (snd (handle_request e r s)) = visitors s @ vs @ ws"
    "\<forall>v\<in>set (vs @ ws).
           session_id v = (case session s ''session_id'' of None \<Rightarrow> uuid4 e (drawn s) | Some y \<Rightarrow> y)"
    by blast
  then show ?thesis by (intro exI [of _ "vs @ ws"]) simp
qed

lemma run_session_known:
  assumes "session s ''session_id'' = Some x"
  shows "session (run_session e rs s) ''session_id'' = Some x
     \<and> (\<exists>vs. visitors (run_session e rs s) = visitors s @ vs \<and> (\<forall>v\<in>set vs. session_id v = x))"
  using assms
proof (induction rs arbitrary: s)
  case Nil
  then show ?case by simp
next
  case (Cons r rs)
  define s1 where "s1 = snd (handle_request e r s)"
  have k: "session s1 ''session_id'' = Some x"
    unfolding s1_def using handle_request_session [of e r s] Cons.prems by simp
  from handle_request_rows [of e r s] Cons.prems
  obtain vs where vs: "visitors s1 = visitors s @ vs" "\<forall>v\<in>set vs. session_id v = x"
    unfolding s1_def by auto
  from Cons.IH [OF k]
  obtain ws where ws: "session (run_session e rs s1) ''session_id'' = Some x"
    "visitors (run_session e rs s1) = visitors s1 @ ws" "\<forall>v\<in>set ws. session_id v = x"
    by blast
  have "visitors (run_session e (r # rs) s) = visitors s @ (vs @ ws)"
    using vs(1) ws(2) by (simp add: s1_def)
  moreover have "\<forall>v\<in>set (vs @ ws). session_id v = x" using vs(2) ws(3) by auto
  moreover have "session (run_session e (r # rs) s) ''session_id'' = Some x"
    using ws(1) by (simp add: s1_def)
  ultimately show ?case by blast
qed

text \<open>
  C6: the first request of a client session leaves a \<open>session_id\<close> in the cookie
  session (the one already there, or else a fresh identifier); every later request of
  the session finds and keeps it; and every Visitor row written during the session
  carries that identifier.
\<close>

theorem session_id_assigned_once:
  "session (snd (handle_request e r s)) ''session_id''
      = Some (case session s ''session_id'' of None \<Rightarrow> uuid4 e (drawn s) | Some y \<Rightarrow> y)
   \<and> session (run_session e (r # rs) s) ''session_id''
      = session (snd (handle_request e r s)) ''session_id''
   \<and> (\<exists>vs. visitors (run_session e (r # rs) s) = visitors s @ vs
         \<and> (\<forall>v\<in>set vs. Some (session_id v) = session (snd (handle_request e r s)) ''session_id''))"
proof -
  define x where "x = (case session s ''session_id'' of None \<Rightarrow> uuid4 e (drawn s) | Some y \<Rightarrow> y)"
  define s1 where "s1 = snd (handle_request e r s)"
  have k: "session s1 ''session_id'' = Some x"
    unfolding s1_def x_def by (rule handle_request_session)
  from handle_request_rows [of e r s]
  obtain vs where vs: "visitors s1 = visitors s @ vs" "\<forall>v\<in>set vs. session_id v = x"
    unfolding s1_def x_def by blast
  from run_session_known [OF k, of e rs]
  obtain ws where ws: "session (run_session e rs s1) ''session_id'' = Some x"
    "visitors (run_session e rs s1) = visitors s1 @ ws" "\<forall>v\<in>set ws. session_id v = x"
    by blast
  have 1: "visitors (run_session e (r # rs) s) = visitors s @ (vs @ ws)"
    using vs(1) ws(2) by (simp add: s1_def)
  have 2: "\<forall>v\<in>set (vs @ ws). Some (session_id v) = session s1 ''session_id''"
    using vs(2) ws(3) k by auto
  have 3: "session (run_session e (r # rs) s) ''session_id'' = session s1 ''session_id''"
    using ws(1) k by (simp add: s1_def)
  from 1 2 3 k show ?thesis unfolding s1_def x_def by blast
qed

theorem session_id_assigned_once_witness:
  "session world0 ''session_id'' = None
   \<and> session (snd (handle_request env_ok (req ''GET'' ''/'') world0)) ''session_id'' = Some ''uuid-0''
   \<and> map session_id (visitors (run_session env_ok [req ''GET'' ''/'', req ''GET'' ''/about''] world0))
        = [''uuid-0'', ''uuid-0'', ''uuid-0'']"
proof -
  define vs where "vs = visitors (run_session env_ok [req ''GET'' ''/'', req ''GET'' ''/about''] world0)"
  have a: "session world0 ''session_id'' = None" by (simp add: world0_def)
  have b: "visitors world0 = []" by (simp add: world0_def)
  have c: "uuid4 env_ok (drawn world0) = ''uuid-0''" by code_simp
  have d: "length vs = 3" unfolding vs_def by code_simp
  from session_id_assigned_once [of env_ok "req ''GET'' ''/''" world0 "[req ''GET'' ''/about'']"]
  have s: "session (snd (handle_request env_ok (req ''GET'' ''/'') world0)) ''session_id'' = Some ''uuid-0''"
    and r: "\<forall>v\<in>set vs. session_id v = ''uuid-0''"
    unfolding vs_def using a b c by auto
  from r have "map session_id vs = map (\<lambda>v. ''uuid-0'') vs" by simp
  also have "\<dots> = replicate (length vs) ''uuid-0''" by (simp add: map_replicate_const)
  also have "\<dots> = [''uuid-0'', ''uuid-0'', ''uuid-0'']" by (simp add: d numeral_3_eq_3)
  finally have "map session_id vs = [''uuid-0'', ''uuid-0'', ''uuid-0'']" .
  with a s show ?thesis unfolding vs_def by blast
qed


section \<open>The admin statistics\<close>

lemma distinct_count: "length (remdups (map f xs)) = card (f ` set xs)"
  by (simp add: length_remdups_card_conv)

lemma jget_error: "jget ''unique_visitors'' (Json (query_failed w)) = None"
  by (simp add: jget_def query_failed_def)

text \<open>
  C8: whenever the stats endpoint or the logs endpoint returns a \<open>unique_visitors\<close>
  value, it is the number of distinct \<open>ip_address\<close> values among the Visitor rows,
  and they return one whenever none of their queries raises. The witness below is a
  table where this number differs from the number of distinct \<open>session_id\<close> values.
\<close>

theorem unique_visitors_counts_addresses:
  "(\<forall>j. jget ''unique_visitors'' (fst (admin_stats e r s)) = Some j \<longrightarrow>
        j = JNum (card (ip_address ` set (visitors s))))
   \<and> (\<forall>j. jget ''unique_visitors'' (fst (admin_logs e r s)) = Some j \<longrightarrow>
        j = JNum (card (ip_address ` set (visitors s))))
   \<and> (fst (run_queries e 6 s) = None \<longrightarrow>
        jget ''unique_visitors'' (fst (admin_stats e r s))
          = Some (JNum (card (ip_address ` set (visitors s)))))
   \<and> (fst (run_queries e 3 s) = None \<longrightarrow>
        jget ''unique_visitors'' (fst (admin_logs e r s))
          = Some (JNum (card (ip_address ` set (visitors s)))))"
proof (intro conjI allI impI)
  fix j
  assume "jget ''unique_visitors'' (fst (admin_stats e r s)) = Some j"
  then show "j = JNum (card (ip_address ` set (visitors s)))"
    by (cases "fst (run_queries e 6 s)")
       (simp_all add: admin_stats_def Let_def jget_error distinct_count, simp add: jget_def)
next
  fix j
  assume "jget ''unique_visitors'' (fst (admin_logs e r s)) = Some j"
  then show "j = JNum (card (ip_address ` set (visitors s)))"
    by (cases "fst (run_queries e 3 s)")
       (simp_all add: admin_logs_def Let_def jget_error distinct_count, simp add: jget_def)
next
  assume "fst (run_queries e 6 s) = None"
  then show "jget ''unique_visitors'' (fst (admin_stats e r s))
          = Some (JNum (card (ip_address ` set (visitors s))))"
    by (simp add: admin_stats_def Let_def distinct_count jget_def)
next
  assume "fst (run_queries e 3 s) = None"
  then show "jget ''unique_visitors'' (fst (admin_logs e r s))
          = Some (JNum (card (ip_address ` set (visitors s))))"
    by (simp add: admin_logs_def Let_def distinct_count jget_def)
qed

theorem unique_visitors_counts_addresses_witness:
  "fst (run_queries env_ok 6 world_shared_ip) = None
   \<and> jget ''unique_visitors'' (fst (admin_stats env_ok (req ''GET'' ''/admin/stats'') world_shared_ip))
        = Some (JNum 1)
   \<and> card (ip_address ` set (visitors world_shared_ip)) = 1
   \<and> card (session_id ` set (visitors world_shared_ip)) = 2"
proof -
  have a: "fst (run_queries env_ok 6 world_shared_ip) = None" by code_simp
  have b: "card (ip_address ` set (visitors world_shared_ip)) = 1" by code_simp
  have c: "card (session_id ` set (visitors world_shared_ip)) = 2" by code_simp
  from unique_visitors_counts_addresses [of env_ok "req ''GET'' ''/admin/stats''" world_shared_ip] a
  have "jget ''unique_visitors'' (fst (admin_stats env_ok (req ''GET'' ''/admin/stats'') world_shared_ip))
        = Some (JNum (card (ip_address ` set (visitors world_shared_ip))))"
    by blast
  with a b c show ?thesis by simp
qed


section \<open>The export\<close>

lemma export_dict_keys: "map fst (export_dict e v) = export_fields"
  by (simp add: export_dict_def export_fields_def)

lemma dict_to_list_export:
  "dict_to_list export_fields (export_dict e v) = Inr (map (\<lambda>kv. csv_str (snd kv)) (export_dict e v))"
  by (simp add: dict_to_list_def export_dict_def export_fields_def)

lemma writerows_export:
  "writerows export_fields (map (export_dict e) vs) =
     Inr (concat (map (\<lambda>v. csv_writerow (map (\<lambda>kv. csv_str (snd kv)) (export_dict e v))) vs))"
  by (induction vs) (simp_all add: dict_to_list_export)

lemma order_by_desc_Nil: "order_by_desc k xs = [] \<longleftrightarrow> xs = []"
proof -
  have "length (order_by_desc k xs) = length xs"
    by (simp add: order_by_desc_def)
  then show ?thesis by (metis length_0_conv)
qed

lemma csv_header_line:
  "csv_writerow export_fields =
     ''id,session_id,ip_address,user_agent,timestamp,page,action,referrer,host,method,platform,browser''
       @ [CHR 0x0D, CHR 0x0A]"
  by (simp add: csv_writerow_def export_fields_def join_def csv_field_def)

text \<open>
  C9: with an empty Visitor table, and the query not raising, the export is the line
  terminator alone: an empty header line and no data rows. With at least one row the
  header line is made of the keys of the first row, followed by one line per row.
\<close>

theorem export_header:
  "(visitors s = [] \<and> storage_raises e (tick s) = None \<longrightarrow>
       (\<exists>h. fst (export_logs e r s) = Csv [CHR 0x0D, CHR 0x0A] h))
   \<and> (visitors s \<noteq> [] \<and> storage_raises e (tick s) = None \<longrightarrow>
       (\<exists>h. fst (export_logs e r s) =
          Csv (csv_writerow (map fst (export_dict e (hd (order_by_desc timestamp (visitors s)))))
               @ concat (map (\<lambda>v. csv_writerow (map (\<lambda>kv. csv_str (snd kv)) (export_dict e v)))
                           (order_by_desc timestamp (visitors s)))) h))"
proof (intro conjI impI)
  assume "visitors s = [] \<and> storage_raises e (tick s) = None"
  then show "\<exists>h. fst (export_logs e r s) = Csv [CHR 0x0D, CHR 0x0A] h"
    by (simp add: export_logs_def Let_def order_by_desc_def fieldnames_of_def csv_writerow_def join_def)
next
  assume a: "visitors s \<noteq> [] \<and> storage_raises e (tick s) = None"
  define vs where "vs = order_by_desc timestamp (visitors s)"
  from a have "vs \<noteq> []" by (simp add: vs_def order_by_desc_Nil)
  then obtain v0 rest where v0: "vs = v0 # rest" by (cases vs) auto
  have fn: "fieldnames_of (map (export_dict e) vs) = export_fields"
    by (simp add: v0 fieldnames_of_def export_dict_keys)
  have q: "fst (run_queries e 1 s) = None"
    using a by (simp add: numeral_eq_Suc)
  have "\<exists>h. fst (export_logs e r s) =
          Csv (csv_writerow export_fields
               @ concat (map (\<lambda>v. csv_writerow (map (\<lambda>kv. csv_str (snd kv)) (export_dict e v))) vs)) h"
    using q by (simp add: export_logs_def Let_def vs_def [symmetric] fn writerows_export)
  moreover have "map fst (export_dict e (hd vs)) = export_fields"
    by (rule export_dict_keys)
  ultimately show "\<exists>h. fst (export_logs e r s) =
          Csv (csv_writerow (map fst (export_dict e (hd (order_by_desc timestamp (visitors s)))))
               @ concat (map (\<lambda>v. csv_writerow (map (\<lambda>kv. csv_str (snd kv)) (export_dict e v)))
                           (order_by_desc timestamp (visitors s)))) h"
    unfolding vs_def by simp
qed

theorem export_header_witness:
  "visitors world0 = [] \<and> storage_raises env_ok (tick world0) = None
   \<and> (\<exists>h. fst (export_logs env_ok (req ''GET'' ''/admin/export'') world0) = Csv [CHR 0x0D, CHR 0x0A] h)
   \<and> visitors world_shared_ip \<noteq> []
   \<and> (\<exists>rows h. fst (export_logs env_ok (req ''GET'' ''/admin/export'') world_shared_ip) =
        Csv (''id,session_id,ip_address,user_agent,timestamp,page,action,referrer,host,method,platform,browser''
               @ [CHR 0x0D, CHR 0x0A] @ rows) h)"
proof -
  have a: "visitors world0 = []" by (simp add: world0_def)
  have b: "storage_raises env_ok (tick world0) = None"
          "storage_raises env_ok (tick world_shared_ip) = None"
    by (simp_all add: env_ok_def)
  have c: "visitors world_shared_ip \<noteq> []" by code_simp
  have d: "csv_writerow (map fst (export_dict env_ok (hd (order_by_desc timestamp (visitors world_shared_ip))))) =
     ''id,session_id,ip_address,user_agent,timestamp,page,action,referrer,host,method,platform,browser''
       @ [CHR 0x0D, CHR 0x0A]"
    by (simp add: export_dict_keys csv_header_line)
  from export_header [of world0 env_ok "req ''GET'' ''/admin/export''"] a b(1)
  have 1: "\<exists>h. fst (export_logs env_ok (req ''GET'' ''/admin/export'') world0) = Csv [CHR 0x0D, CHR 0x0A] h"
    by blast
  from export_header [of world_shared_ip env_ok "req ''GET'' ''/admin/export''"] c b(2)
  obtain h where "fst (export_logs env_ok (req ''GET'' ''/admin/export'') world_shared_ip) =
          Csv (csv_writerow (map fst (export_dict env_ok (hd (order_by_desc timestamp (visitors world_shared_ip)))))
               @ concat (map (\<lambda>v. csv_writerow (map (\<lambda>kv. csv_str (snd kv)) (export_dict env_ok v)))
                           (order_by_desc timestamp (visitors world_shared_ip)))) h"
    by blast
  then have 2: "\<exists>rows h. fst (export_logs env_ok (req ''GET'' ''/admin/export'') world_shared_ip) =
        Csv (''id,session_id,ip_address,user_agent,timestamp,page,action,referrer,host,method,platform,browser''
               @ [CHR 0x0D, CHR 0x0A] @ rows) h"
    unfolding d by (metis append.assoc)
  from a b(1) c 1 2 show ?thesis by blast
qed

end
